theory Spec2Isabelle
  imports Main "HOL-Library.Sublist" "HOL-Library.Multiset" "HOL-Library.Product_Lexorder"
begin

section \<open>Python strings\<close>

text \<open>
  A Python \<open>str\<close> is modelled as a \<open>string\<close>, one \<open>char\<close> per code point, which covers
  the code points below 256 (ASCII and Latin-1). Presets, protocols, URLs and content
  types of the SoundCloud API are ASCII.
\<close>

definition re_digit :: "char \<Rightarrow> bool" where
  \<comment> \<open>the regular expression class \<open>\d\<close>: a decimal digit\<close>
  "re_digit c \<longleftrightarrow> c \<in> set ''0123456789''"

definition isdigit_chr :: "char \<Rightarrow> bool" where
  \<comment> \<open>\<open>str.isdigit\<close> on one character: the decimal digits and the superscripts
      two, three and one (code points B2, B3, B9)\<close>
  "isdigit_chr c \<longleftrightarrow> re_digit c \<or> c \<in> {CHR 0xB2, CHR 0xB3, CHR 0xB9}"

definition isdigit :: "string \<Rightarrow> bool" where
  \<comment> \<open>\<open>s.isdigit()\<close>: not empty and every character a digit\<close>
  "isdigit s \<longleftrightarrow> s \<noteq> [] \<and> list_all isdigit_chr s"

definition digit_val :: "char \<Rightarrow> int" where
  "digit_val c = int (of_char c) - 48"

definition max_str_digits :: nat where
  \<comment> \<open>CPython's default limit on the length of a string given to \<open>int\<close>\<close>
  "max_str_digits = 4300"

definition py_int :: "string \<Rightarrow> int option" where
  \<comment> \<open>\<open>int(s)\<close> on the strings the call sites pass (a \<open>\d+\<close> group, or a string for
      which \<open>isdigit\<close> holds); \<open>None\<close> is \<open>ValueError\<close>: a superscript digit is no
      decimal digit, and a string longer than the limit is refused\<close>
  "py_int s =
     (if s \<noteq> [] \<and> list_all re_digit s \<and> length s \<le> max_str_digits
      then Some (foldl (\<lambda>a c. 10 * a + digit_val c) 0 s)
      else None)"

definition upper_chr :: "char \<Rightarrow> string" where
  \<comment> \<open>\<open>c.upper()\<close>: sharp s (DF) becomes \<open>SS\<close>; the upper-case forms of the micro
      sign (B5) and of y with diaeresis (FF) lie beyond code point 255 and the model
      keeps the character, which like the real result is no ASCII character\<close>
  "upper_chr c =
     (let n = (of_char c :: nat)
      in if (97 \<le> n \<and> n \<le> 122) \<or> (224 \<le> n \<and> n \<le> 254 \<and> n \<noteq> 247) then [char_of (n - 32)]
         else if n = 223 then ''SS''
         else [c])"

definition upper :: "string \<Rightarrow> string" where
  "upper s = concat (map upper_chr s)"

definition lower_chr :: "char \<Rightarrow> char" where
  "lower_chr c =
     (let n = (of_char c :: nat)
      in if (65 \<le> n \<and> n \<le> 90) \<or> (192 \<le> n \<and> n \<le> 222 \<and> n \<noteq> 215) then char_of (n + 32)
         else c)"

definition lower :: "string \<Rightarrow> string" where
  "lower s = map lower_chr s"

fun in_str :: "string \<Rightarrow> string \<Rightarrow> bool" where
  \<comment> \<open>\<open>sub in s\<close>\<close>
  "in_str sub [] = (sub = [])"
| "in_str sub (c # cs) = (prefix sub (c # cs) \<or> in_str sub cs)"

definition startswith :: "string \<Rightarrow> string \<Rightarrow> bool" where
  \<comment> \<open>\<open>s.startswith(p)\<close>\<close>
  "startswith s p = prefix p s"

function split_str :: "string \<Rightarrow> string \<Rightarrow> string list" where
  \<comment> \<open>\<open>s.split(sep)\<close> for a separator that is not empty\<close>
  "split_str sep s =
     (if s = [] then [[]]
      else if sep \<noteq> [] \<and> prefix sep s then [] # split_str sep (drop (length sep) s)
      else (case split_str sep (tl s) of
              [] \<Rightarrow> [[hd s]]
            | p # ps \<Rightarrow> (hd s # p) # ps))"
  by pat_completeness auto
termination
  by (relation "measure (\<lambda>(sep, s). length s)") auto

declare split_str.simps [simp del]

function replace_str :: "string \<Rightarrow> string \<Rightarrow> string \<Rightarrow> string" where
  \<comment> \<open>\<open>s.replace(old, new)\<close> for an \<open>old\<close> that is not empty: every occurrence, from
      the left, without overlap\<close>
  "replace_str old new s =
     (if s = [] then []
      else if old \<noteq> [] \<and> prefix old s then new @ replace_str old new (drop (length old) s)
      else hd s # replace_str old new (tl s))"
  by pat_completeness auto
termination
  by (relation "measure (\<lambda>(old, new, s). length s)") auto

declare replace_str.simps [simp del]

subsection \<open>The two regular expressions\<close>

text \<open>
  \<open>re.search\<close> tries the pattern at every position from the left and returns the first
  match. At one position, \<open>(\d+)k\<close> matches when the longest run of digits there is not
  empty and is followed by \<open>k\<close>: the run is greedy, and a shorter run is followed by a
  digit, never by \<open>k\<close>. The group is the whole run.
\<close>

definition match_digits_k :: "string \<Rightarrow> string option" where
  \<comment> \<open>the pattern \<open>(\d+)k\<close> at the start of \<open>s\<close>; the result is group 1\<close>
  "match_digits_k s =
     (let ds = takeWhile re_digit s
      in if ds \<noteq> [] \<and> prefix ''k'' (dropWhile re_digit s) then Some ds else None)"

definition match_aac_digits_k :: "string \<Rightarrow> string option" where
  \<comment> \<open>the pattern \<open>aac_(\d+)k\<close> at the start of \<open>s\<close>\<close>
  "match_aac_digits_k s = (if prefix ''aac_'' s then match_digits_k (drop 4 s) else None)"

fun re_search :: "(string \<Rightarrow> 'a option) \<Rightarrow> string \<Rightarrow> 'a option" where
  "re_search m [] = m []"
| "re_search m (c # cs) = (case m (c # cs) of Some g \<Rightarrow> Some g | None \<Rightarrow> re_search m cs)"

section \<open>Bitrate extraction from a preset string (interface.py)\<close>

datatype pyval = PyNone | PyBool bool | PyInt int | PyStr string

fun truthy :: "pyval \<Rightarrow> bool" where
  "truthy PyNone = False"
| "truthy (PyBool b) = b"
| "truthy (PyInt n) = (n \<noteq> 0)"
| "truthy (PyStr s) = (s \<noteq> [])"

fun parse_aac_bitrate_from_preset :: "pyval \<Rightarrow> int" where
  \<comment> \<open>\<open>_parse_aac_bitrate_from_preset\<close>\<close>
  "parse_aac_bitrate_from_preset (PyStr preset_string) =
     (case re_search match_aac_digits_k preset_string of
        Some g \<Rightarrow> (case py_int g of Some n \<Rightarrow> n | None \<Rightarrow> 0)
      | None \<Rightarrow> if startswith preset_string ''aac_'' then 64 else 0)"
| "parse_aac_bitrate_from_preset _ = 0"

definition opus_fallback :: "string list \<Rightarrow> string \<Rightarrow> int" where
  \<comment> \<open>the last step of \<open>_parse_progressive_bitrate_from_preset\<close>: Opus quality levels\<close>
  "opus_fallback parts stream_codec_name =
     (if stream_codec_name = ''OPUS'' \<and> length parts > 1 \<and> parts ! 0 = ''opus'' \<and> isdigit (parts ! 1)
      then (case py_int (parts ! 1) of Some quality_level \<Rightarrow> quality_level * 12 + 32 | None \<Rightarrow> 0)
      else 0)"

definition second_segment :: "string list \<Rightarrow> string \<Rightarrow> int" where
  \<comment> \<open>the third step: the second segment when it is a number\<close>
  "second_segment parts stream_codec_name =
     (if length parts > 1 \<and> isdigit (parts ! 1)
      then (case py_int (parts ! 1) of Some n \<Rightarrow> n | None \<Rightarrow> opus_fallback parts stream_codec_name)
      else opus_fallback parts stream_codec_name)"

definition generic_pattern :: "string \<Rightarrow> string \<Rightarrow> int" where
  \<comment> \<open>the second step: \<open>(\d+)k\<close> anywhere in the preset, then the split on \<open>_\<close>\<close>
  "generic_pattern preset_string stream_codec_name =
     (case re_search match_digits_k preset_string of
        Some g \<Rightarrow> (case py_int g of
                     Some n \<Rightarrow> n
                   | None \<Rightarrow> second_segment (split_str ''_'' preset_string) stream_codec_name)
      | None \<Rightarrow> second_segment (split_str ''_'' preset_string) stream_codec_name)"

fun parse_progressive_bitrate_from_preset :: "pyval \<Rightarrow> string \<Rightarrow> int" where
  \<comment> \<open>\<open>_parse_progressive_bitrate_from_preset\<close>\<close>
  "parse_progressive_bitrate_from_preset (PyStr preset_string) stream_codec_name =
     (if stream_codec_name = ''OPUS'' \<and> in_str ''abr_hq'' preset_string then 128
      else if stream_codec_name = ''OPUS'' \<and> in_str ''abr_sq'' preset_string then 96
      else generic_pattern preset_string stream_codec_name)"
| "parse_progressive_bitrate_from_preset _ stream_codec_name = 0"

section \<open>Stream selection (get_track_info in interface.py)\<close>

text \<open>
  \<open>CodecEnum\<close> belongs to the host framework (\<open>utils.models\<close>) and is not part of
  this repository. A member is represented by its name, so that \<open>CodecEnum[name]\<close> is
  \<open>CodecEnum name\<close> and two members are equal when their names are (the enumeration has
  no aliases). The names of the enumeration (\<open>CodecEnum.__members__\<close>) are a parameter
  \<open>members\<close> of the functions that look a name up.
\<close>

datatype CodecEnum = CodecEnum string

abbreviation AAC :: CodecEnum where "AAC \<equiv> CodecEnum ''AAC''"
abbreviation OPUS :: CodecEnum where "OPUS \<equiv> CodecEnum ''OPUS''"
abbreviation MP3 :: CodecEnum where "MP3 \<equiv> CodecEnum ''MP3''"

text \<open>
  One entry of \<open>track_data['media']['transcodings']\<close>: \<open>i['url']\<close>,
  \<open>i['format']['protocol']\<close> and \<open>i['preset']\<close>. The keys are present, and protocol and
  preset are strings, as the API sends them; the url is any scalar.
\<close>

record transcoding =
  tr_url :: pyval
  tr_protocol :: string
  tr_preset :: string

text \<open>An element of \<open>available_streams\<close>.\<close>

record stream =
  url :: pyval
  codec :: CodecEnum
  is_hls :: bool
  is_encrypted :: bool
  quality :: int
  preference :: int
  preset :: string

definition codec_preference :: "(CodecEnum \<times> bool) \<rightharpoonup> int" where
  "codec_preference = map_of
     [((AAC, True), 5),
      ((OPUS, True), 4),
      ((OPUS, False), 3),
      ((AAC, False), 2),
      ((MP3, False), 1),
      ((MP3, True), 0)]"

definition pref_score :: "CodecEnum \<Rightarrow> bool \<Rightarrow> int" where
  \<comment> \<open>\<open>codec_preference.get((current_codec_enum, is_hls), 0)\<close>\<close>
  "pref_score c h = (case codec_preference (c, h) of Some p \<Rightarrow> p | None \<Rightarrow> 0)"

definition encrypted_marker :: "pyval \<Rightarrow> bool" where
  "encrypted_marker u =
     (case u of
        PyStr s \<Rightarrow> in_str ''ctr-encrypted-hls'' (lower s) \<or> in_str ''cbc-encrypted-hls'' (lower s)
      | _ \<Rightarrow> False)"

definition is_hls_by_url :: "pyval \<Rightarrow> bool" where
  "is_hls_by_url u =
     (case u of
        PyStr s \<Rightarrow> in_str ''/hls'' (lower s) \<or> in_str ''.m3u8'' (lower s)
                   \<or> in_str ''ctr-encrypted-hls'' (lower s) \<or> in_str ''cbc-encrypted-hls'' (lower s)
      | _ \<Rightarrow> False)"

definition stream_is_hls :: "transcoding \<Rightarrow> bool" where
  "stream_is_hls i \<longleftrightarrow> tr_protocol i = ''hls'' \<or> is_hls_by_url (tr_url i)"

definition stream_is_encrypted_hls :: "transcoding \<Rightarrow> bool" where
  "stream_is_encrypted_hls i \<longleftrightarrow> stream_is_hls i \<and> encrypted_marker (tr_url i)"

definition stream_codec_name :: "transcoding \<Rightarrow> string" where
  \<comment> \<open>\<open>preset_parts[0].upper() if preset_parts else ''\<close>\<close>
  "stream_codec_name i =
     (case split_str ''_'' (tr_preset i) of [] \<Rightarrow> [] | p # ps \<Rightarrow> upper p)"

definition quality_score :: "transcoding \<Rightarrow> int" where
  "quality_score i =
     (if stream_is_encrypted_hls i then - 100
      else if stream_is_hls i then
        (if CodecEnum (stream_codec_name i) = AAC
         then parse_aac_bitrate_from_preset (PyStr (tr_preset i))
         else parse_progressive_bitrate_from_preset (PyStr (tr_preset i)) (stream_codec_name i))
      else parse_progressive_bitrate_from_preset (PyStr (tr_preset i)) (stream_codec_name i))"

definition candidate :: "string list \<Rightarrow> transcoding \<Rightarrow> stream option" where
  \<comment> \<open>the body of the loop over the transcodings: the stream it appends, if any\<close>
  "candidate members i =
     (if stream_codec_name i \<in> set members then
        (if truthy (tr_url i) \<and> quality_score i \<ge> 0 then
           Some \<lparr>url = tr_url i,
                 codec = CodecEnum (stream_codec_name i),
                 is_hls = stream_is_hls i,
                 is_encrypted = stream_is_encrypted_hls i,
                 quality = quality_score i,
                 preference = pref_score (CodecEnum (stream_codec_name i)) (stream_is_hls i),
                 preset = tr_preset i\<rparr>
         else None)
      else None)"

fun available_streams :: "string list \<Rightarrow> transcoding list \<Rightarrow> stream list" where
  "available_streams members [] = []"
| "available_streams members (i # rest) =
     (case candidate members i of
        Some s \<Rightarrow> s # available_streams members rest
      | None \<Rightarrow> available_streams members rest)"

definition sort_key_of :: "stream \<Rightarrow> int \<times> int" where
  \<comment> \<open>\<open>lambda x: (x['quality'], x['preference'])\<close>; tuples compare lexicographically\<close>
  "sort_key_of x = (quality x, preference x)"

definition sort_reverse :: "('a \<Rightarrow> 'k::linorder) \<Rightarrow> 'a list \<Rightarrow> 'a list" where
  \<comment> \<open>\<open>list.sort(key=..., reverse=True)\<close>: the list is reversed, sorted by the stable
      ascending sort, and reversed again, so that elements with equal keys keep their
      order\<close>
  "sort_reverse k xs = rev (sort_key k (rev xs))"

definition ranked_streams :: "string list \<Rightarrow> transcoding list \<Rightarrow> stream list" where
  \<comment> \<open>\<open>available_streams\<close> after \<open>available_streams.sort(...)\<close>\<close>
  "ranked_streams members ts = sort_reverse sort_key_of (available_streams members ts)"

definition best_stream :: "string list \<Rightarrow> transcoding list \<Rightarrow> stream option" where
  \<comment> \<open>\<open>available_streams[0]\<close> after the sort, when the list is not empty\<close>
  "best_stream members ts =
     (case ranked_streams members ts of
        [] \<Rightarrow> None
      | b # rest \<Rightarrow> Some b)"

subsection \<open>The host and the network\<close>

datatype exn =
    ModuleError string
  | FfmpegError "string option" string
  | PyException string

fun exn_str :: "exn \<Rightarrow> string" where
  \<comment> \<open>\<open>str(e)\<close>\<close>
  "exn_str (ModuleError m) = m"
| "exn_str (FfmpegError err m) = m"
| "exn_str (PyException m) = m"

datatype ffmpeg_result = Exited int "string option" | Raised exn

record ffmpeg_outcome =
  wrote_output :: bool
  result :: ffmpeg_result

text \<open>
  What the module calls and does not define: the requests of the web session, the table
  \<open>codec_data\<close> and the helpers of \<open>utils.utils\<close>, and the ffmpeg library. Each is a
  field of the record, and a call that can raise returns a sum.
  \<^item> \<open>api_track_download\<close>: \<open>websession.get_track_download(track_id)\<close>;
  \<^item> \<open>head_content_type\<close>: \<open>websession.s.head(url).headers.get('Content-Type', '')\<close>;
  \<^item> \<open>api_get_url\<close>: \<open>websession._get(path, {'track_authorization': t})['url']\<close>;
  \<^item> \<open>codec_data\<close>: the container name of a codec, \<open>codec_data[codec].container.name\<close>;
  \<^item> \<open>temp_filename\<close>: what \<open>create_temp_filename()\<close> returns in this call;
  \<^item> \<open>download_to_temp\<close>: the path \<open>download_to_temp(url, headers, extension)\<close> writes;
  \<^item> \<open>ffmpeg_installed\<close>: whether \<open>import ffmpeg\<close> succeeds;
  \<^item> \<open>ffmpeg_run\<close>: what running ffmpeg on an input and an output does.
\<close>

record host =
  access_token :: string
  api_track_download :: "string \<Rightarrow> exn + string"
  head_content_type :: "string \<Rightarrow> exn + string"
  api_get_url :: "string \<Rightarrow> string \<Rightarrow> exn + pyval"
  codec_data :: "CodecEnum \<rightharpoonup> string"
  temp_filename :: string
  download_to_temp :: "pyval \<Rightarrow> string \<Rightarrow> exn + string"
  ffmpeg_installed :: bool
  ffmpeg_run :: "pyval \<Rightarrow> string \<Rightarrow> ffmpeg_outcome"

subsection \<open>get_track_info\<close>

text \<open>
  The fields of \<open>track_data\<close> that decide the stream, and the part of the \<open>TrackInfo\<close>
  they decide: \<open>download_extra_kwargs\<close> with its keys \<open>track_url\<close> (the local variable
  \<open>file_url\<close>), \<open>download_url\<close>, \<open>codec\<close> (\<open>final_codec\<close>) and \<open>is_hls\<close>
  (\<open>final_is_hls_stream\<close>), and \<open>error\<close>. The metadata of the \<open>TrackInfo\<close> is left out.
\<close>

record track_data =
  downloadable :: bool
  has_downloads_left :: bool
  streamable :: bool
  media_transcodings :: "transcoding list"

record TrackInfo =
  ti_track_url :: pyval
  ti_download_url :: pyval
  ti_codec :: CodecEnum
  ti_is_hls :: bool
  ti_error :: "string option"

definition drm_error :: string where
  "drm_error = ''Track is available as a DRM-protected HLS stream, which can be downloaded, but aren''
     @ [CHR 0x27] @ ''t playable without decryption key. Skipping.''"

definition codec_str :: "string \<Rightarrow> string" where
  \<comment> \<open>\<open>content_type_header.split('/')[-1].replace('mpeg', 'mp3').replace('ogg', 'vorbis').upper()\<close>\<close>
  "codec_str content_type_header =
     upper (replace_str ''ogg'' ''vorbis'' (replace_str ''mpeg'' ''mp3''
       (last (split_str ''/'' content_type_header))))"

definition direct_download :: "string list \<Rightarrow> string \<Rightarrow> string \<Rightarrow> TrackInfo" where
  \<comment> \<open>the branch of a downloadable track, after its two requests\<close>
  "direct_download members u content_type_header =
     (if codec_str content_type_header \<in> set members
      then \<lparr>ti_track_url = PyStr u, ti_download_url = PyStr u,
            ti_codec = CodecEnum (codec_str content_type_header),
            ti_is_hls = False, ti_error = None\<rparr>
      else \<lparr>ti_track_url = PyStr u, ti_download_url = PyStr u, ti_codec = AAC,
            ti_is_hls = False,
            ti_error = Some (''Unknown codec from direct download Content-Type: '' @ content_type_header)\<rparr>)"

definition select_stream :: "string list \<Rightarrow> transcoding list \<Rightarrow> TrackInfo" where
  \<comment> \<open>the branch of a streamable track with transcodings\<close>
  "select_stream members ts =
     (case best_stream members ts of
        Some b \<Rightarrow>
          \<lparr>ti_track_url = url b, ti_download_url = PyNone, ti_codec = codec b,
            ti_is_hls = is_hls b,
            ti_error =
              (if is_encrypted b then Some drm_error
               else if quality b > 0 then None
               else Some (''Best stream found (preset: '' @ preset b
                          @ '') has zero or negative quality, or codec could not be parsed.''))\<rparr>
      | None \<Rightarrow>
          \<lparr>ti_track_url = PyNone, ti_download_url = PyNone, ti_codec = AAC,
            ti_is_hls = False,
            ti_error = Some ''No stream transcodings found or none were usable.''\<rparr>)"

definition get_track_info :: "host \<Rightarrow> string list \<Rightarrow> string \<Rightarrow> track_data \<Rightarrow> exn + TrackInfo" where
  "get_track_info h members track_id td =
     (if downloadable td \<and> has_downloads_left td then
        (case api_track_download h track_id of
           Inl e \<Rightarrow> Inl e
         | Inr u \<Rightarrow>
             (case head_content_type h u of
                Inl e \<Rightarrow> Inl e
              | Inr content_type_header \<Rightarrow> Inr (direct_download members u content_type_header)))
      else if streamable td then
        (if media_transcodings td \<noteq> [] then Inr (select_stream members (media_transcodings td))
         else Inr \<lparr>ti_track_url = PyNone, ti_download_url = PyNone, ti_codec = AAC,
                   ti_is_hls = False,
                   ti_error = Some ''No stream transcodings available for this track.''\<rparr>)
      else Inr \<lparr>ti_track_url = PyNone, ti_download_url = PyNone, ti_codec = AAC,
                ti_is_hls = False,
                ti_error = Some ''Track is not available for download or streaming.''\<rparr>)"

section \<open>Downloading a track (get_track_download in interface.py)\<close>

function str_nat :: "nat \<Rightarrow> string" where
  \<comment> \<open>the decimal digits of a natural number\<close>
  "str_nat n = (if n < 10 then [char_of (48 + n)] else str_nat (n div 10) @ [char_of (48 + n mod 10)])"
  by pat_completeness auto
termination
  by (relation "measure (\<lambda>n. n)") auto

declare str_nat.simps [simp del]

definition str_int :: "int \<Rightarrow> string" where
  \<comment> \<open>\<open>str(i)\<close>\<close>
  "str_int i = (if i < 0 then ''-'' @ str_nat (nat (- i)) else str_nat (nat i))"

fun pyval_str :: "pyval \<Rightarrow> string" where
  \<comment> \<open>\<open>str(v)\<close>, as an f-string formats a value\<close>
  "pyval_str PyNone = ''None''"
| "pyval_str (PyBool b) = (if b then ''True'' else ''False'')"
| "pyval_str (PyInt i) = str_int i"
| "pyval_str (PyStr s) = s"

text \<open>
  The effects of a download: the files that exist, what was printed, and the ffmpeg
  invocations (input and output) in order.
\<close>

record world =
  files :: "string set"
  printed :: "string list"
  ffmpeg_log :: "(pyval \<times> string) list"

datatype TrackDownloadInfo =
    TEMP_FILE_PATH string
  | URL pyval "(string \<times> string) list"

definition silentremove :: "string \<Rightarrow> world \<Rightarrow> world" where
  \<comment> \<open>\<open>utils.utils.silentremove\<close>: the file is gone afterwards, and a missing file is
      no error\<close>
  "silentremove f w = w\<lparr>files := files w - {f}\<rparr>"

definition run_ffmpeg :: "host \<Rightarrow> pyval \<Rightarrow> string \<Rightarrow> world \<Rightarrow> ffmpeg_result \<times> world" where
  \<comment> \<open>one invocation of ffmpeg: it is logged, and the output file exists afterwards when
      ffmpeg wrote any of it\<close>
  "run_ffmpeg h input output w =
     (let oc = ffmpeg_run h input output
      in (result oc,
          w\<lparr>files := (if wrote_output oc then insert output (files w) else files w),
            ffmpeg_log := ffmpeg_log w @ [(input, output)]\<rparr>))"

definition api_base :: string where
  "api_base = ''https://api-v2.soundcloud.com/''"

definition get_track_stream_link :: "host \<Rightarrow> pyval \<Rightarrow> string \<Rightarrow> exn + pyval" where
  \<comment> \<open>\<open>SoundCloudWebAPI.get_track_stream_link\<close> (soundcloud_api.py); its second
      parameter, \<open>access_token\<close> there, is the track authorization\<close>
  "get_track_stream_link h file_url track_authorization =
     (case file_url of
        PyStr s \<Rightarrow>
          if s = [] then
            Inl (ModuleError ''Stream URL is missing. This track may not be available for streaming or download in your region.'')
          else if \<not> in_str api_base s then
            Inl (ModuleError ''Invalid stream URL. This track may not be available.'')
          else api_get_url h (split_str api_base s ! 1) track_authorization
      | _ \<Rightarrow>
          Inl (ModuleError ''Stream URL is missing. This track may not be available for streaming or download in your region.''))"

definition determined_is_hls :: "pyval \<Rightarrow> pyval \<Rightarrow> bool" where
  \<comment> \<open>\<open>kwargs.get('is_hls') is True\<close>, or an HLS marker in the url\<close>
  "determined_is_hls is_hls_kwarg track_url \<longleftrightarrow>
     is_hls_kwarg = PyBool True
     \<or> (case track_url of
           PyStr s \<Rightarrow> in_str ''/hls'' (lower s) \<or> in_str ''.m3u8'' (lower s)
                      \<or> in_str ''ctr-encrypted-hls'' (lower s)
         | _ \<Rightarrow> False)"

definition resolve_m3u8 :: "host \<Rightarrow> pyval \<Rightarrow> string \<Rightarrow> exn + pyval" where
  \<comment> \<open>the first \<open>try\<close> of the HLS path: every exception, also the one the block raises
      itself, leaves as a module error\<close>
  "resolve_m3u8 h track_url track_authorization =
     (case get_track_stream_link h track_url track_authorization of
        Inl e \<Rightarrow>
          Inl (ModuleError (''HLS_M3U8_RESOLUTION_ERROR: Failed to resolve M3U8 stream link: '' @ exn_str e))
      | Inr m3u8_url_resolved \<Rightarrow>
          if (case m3u8_url_resolved of PyStr s \<Rightarrow> s \<noteq> [] \<and> startswith s ''http'' | _ \<Rightarrow> False)
          then Inr m3u8_url_resolved
          else Inl (ModuleError (''HLS_M3U8_RESOLUTION_ERROR: Failed to resolve M3U8 stream link: ''
                      @ ''HLS_INVALID_M3U8_URL: Resolved M3U8 URL is invalid: ''
                      @ pyval_str m3u8_url_resolved)))"

definition stderr_text :: "string option \<Rightarrow> string \<Rightarrow> string" where
  \<comment> \<open>\<open>err.decode(...) if err else missing\<close>\<close>
  "stderr_text err missing = (case err of Some s \<Rightarrow> if s \<noteq> [] then s else missing | None \<Rightarrow> missing)"

definition import_error :: exn where
  \<comment> \<open>what \<open>_get_ffmpeg()\<close> raises when the ffmpeg module cannot be imported\<close>
  "import_error = PyException (''No module named '' @ [CHR 0x27] @ ''ffmpeg'' @ [CHR 0x27])"

definition hls_output_location :: "host \<Rightarrow> CodecEnum \<Rightarrow> string" where
  \<comment> \<open>\<open>create_temp_filename() + '.' + extension\<close>, the extension being the container of
      the codec, or \<open>m4a\<close> for a codec that \<open>codec_data\<close> does not have\<close>
  "hls_output_location h codec' =
     temp_filename h @ ''.'' @ (case codec_data h codec' of Some c \<Rightarrow> c | None \<Rightarrow> ''m4a'')"

definition hls_download :: "host \<Rightarrow> CodecEnum \<Rightarrow> pyval \<Rightarrow> world \<Rightarrow> (exn + TrackDownloadInfo) \<times> world" where
  \<comment> \<open>the HLS path after the resolution: the second \<open>try\<close> and its handlers. An import
      error is raised again while the first handler is matched and leaves as it is.
      The module error of a non-zero exit is raised inside the \<open>try\<close> and caught by
      \<open>except Exception\<close>, which removes the file again and wraps the message.\<close>
  "hls_download h codec' m3u8_url_resolved w =
     (let output_location = hls_output_location h codec'
      in if \<not> ffmpeg_installed h then (Inl import_error, w)
         else
           (case run_ffmpeg h m3u8_url_resolved output_location w of
              (Exited returncode err, w1) \<Rightarrow>
                if returncode \<noteq> 0 then
                  (Inl (ModuleError (''HLS_UNEXPECTED_ERROR_IN_TRY_BLOCK: ''
                          @ ''HLS_DOWNLOAD_FFMPEG_ERROR: FFmpeg process failed (RC: ''
                          @ str_int returncode @ ''). Stderr: ''
                          @ stderr_text err ''No stderr from process'')),
                   silentremove output_location (silentremove output_location w1))
                else (Inr (TEMP_FILE_PATH output_location), w1)
            | (Raised (FfmpegError err m), w1) \<Rightarrow>
                (Inl (ModuleError (''HLS_FFMPEG_LIB_ERROR: ''
                        @ stderr_text err ''No direct stderr from ffmpeg.Error object''
                        @ ''. Original error: '' @ m)),
                 silentremove output_location w1)
            | (Raised e, w1) \<Rightarrow>
                (Inl (ModuleError (''HLS_UNEXPECTED_ERROR_IN_TRY_BLOCK: '' @ exn_str e)),
                 silentremove output_location w1)))"

definition remux_warning :: "exn \<Rightarrow> string" where
  "remux_warning e = ''FFmpeg is not installed or working properly for AAC remux! Error: ''
     @ exn_str e @ ''. Using fallback, may have errors.''"

definition remux_fallback :: "exn \<Rightarrow> string \<Rightarrow> string \<Rightarrow> world \<Rightarrow> (exn + TrackDownloadInfo) \<times> world" where
  \<comment> \<open>the handler of the AAC remux: remove the output, print, return the raw file\<close>
  "remux_fallback e temp_location output_location w =
     (let w1 = silentremove output_location w
      in (Inr (TEMP_FILE_PATH temp_location), w1\<lparr>printed := printed w1 @ [remux_warning e]\<rparr>))"

definition aac_download :: "host \<Rightarrow> pyval \<Rightarrow> world \<Rightarrow> (exn + TrackDownloadInfo) \<times> world" where
  \<comment> \<open>the branch \<open>codec == CodecEnum.AAC\<close>; \<open>ffmpeg.run()\<close> raises \<open>ffmpeg.Error\<close> on a
      non-zero exit\<close>
  "aac_download h resolved_stream_url w =
     (case codec_data h AAC of
        None \<Rightarrow> (Inl (PyException ''KeyError''), w)
      | Some extension \<Rightarrow>
          (case download_to_temp h resolved_stream_url extension of
             Inl e \<Rightarrow> (Inl e, w)
           | Inr temp_location \<Rightarrow>
               (let w0 = w\<lparr>files := insert temp_location (files w)\<rparr>;
                    output_location = temp_filename h @ ''.'' @ extension
                in if \<not> ffmpeg_installed h
                   then remux_fallback import_error temp_location output_location w0
                   else
                     (case run_ffmpeg h (PyStr temp_location) output_location w0 of
                        (Exited returncode err, w1) \<Rightarrow>
                          if returncode = 0
                          then (Inr (TEMP_FILE_PATH output_location), silentremove temp_location w1)
                          else remux_fallback
                                 (FfmpegError err ''ffmpeg error (see stderr output for detail)'')
                                 temp_location output_location w1
                      | (Raised e, w1) \<Rightarrow> remux_fallback e temp_location output_location w1))))"

definition auth_header_non_hls :: "host \<Rightarrow> (string \<times> string) list" where
  "auth_header_non_hls h = [(''Authorization'', ''OAuth '' @ access_token h)]"

definition resolved_stream_url :: "host \<Rightarrow> pyval \<Rightarrow> pyval \<Rightarrow> string \<Rightarrow> exn + pyval" where
  \<comment> \<open>the url of the non-HLS path: the download url, or else the resolved track url\<close>
  "resolved_stream_url h track_url download_url track_authorization =
     (if \<not> truthy download_url
      then get_track_stream_link h track_url track_authorization
      else Inr download_url)"

definition get_track_download ::
  "host \<Rightarrow> pyval \<Rightarrow> pyval \<Rightarrow> CodecEnum \<Rightarrow> string \<Rightarrow> pyval \<Rightarrow> world \<Rightarrow> (exn + TrackDownloadInfo) \<times> world" where
  "get_track_download h track_url download_url codec' track_authorization is_hls_kwarg w =
     (if determined_is_hls is_hls_kwarg track_url then
        (if \<not> truthy track_url
         then (Inl (ModuleError ''HLS stream URL not found in get_track_download (is_hls path)''), w)
         else
           (case resolve_m3u8 h track_url track_authorization of
              Inl e \<Rightarrow> (Inl e, w)
            | Inr m3u8_url_resolved \<Rightarrow> hls_download h codec' m3u8_url_resolved w))
      else
        (case resolved_stream_url h track_url download_url track_authorization of
           Inl e \<Rightarrow> (Inl e, w)
         | Inr r \<Rightarrow>
             if codec' = AAC then aac_download h r w
             else (Inr (URL r (auth_header_non_hls h)), w)))"

section \<open>Notions of the statements and example inputs\<close>

definition ffmpeg_failed :: "ffmpeg_result \<Rightarrow> bool" where
  \<comment> \<open>a failure of the external tool: a non-zero exit code or a raised exception\<close>
  "ffmpeg_failed r = (case r of Exited returncode err \<Rightarrow> returncode \<noteq> 0 | Raised e \<Rightarrow> True)"

definition named_members :: "string list" where
  \<comment> \<open>the members of \<open>CodecEnum\<close> that interface.py names: \<open>CodecEnum.AAC\<close>,
      \<open>CodecEnum.OPUS\<close> and \<open>CodecEnum.MP3\<close>\<close>
  "named_members = [''AAC'', ''OPUS'', ''MP3'']"

definition demo_host :: host where
  \<comment> \<open>a host whose requests succeed, with a direct download of type \<open>audio/mpeg\<close>,
      and whose ffmpeg writes part of the output and exits with code 1\<close>
  "demo_host =
     \<lparr>access_token = ''token'',
      api_track_download = (\<lambda>track_id. Inr ''https://cf-media.sndcdn.com/track.mp3''),
      head_content_type = (\<lambda>u. Inr ''audio/mpeg''),
      api_get_url = (\<lambda>path t. Inr (PyStr ''https://cf-media.sndcdn.com/resolved'')),
      codec_data = [AAC \<mapsto> ''m4a'', MP3 \<mapsto> ''mp3''],
      temp_filename = ''temp/0001'',
      download_to_temp = (\<lambda>u extension. Inr (''temp/0000.'' @ extension)),
      ffmpeg_installed = True,
      ffmpeg_run = (\<lambda>input output. \<lparr>wrote_output = True, result = Exited 1 (Some ''Invalid data'')\<rparr>)\<rparr>"


definition progressive_url :: pyval where
  "progressive_url = PyStr ''https://api-v2.soundcloud.com/media/1/stream/progressive''"

definition progressive_url_2 :: pyval where
  "progressive_url_2 = PyStr ''https://api-v2.soundcloud.com/media/2/stream/progressive''"

definition hls_url :: pyval where
  "hls_url = PyStr ''https://api-v2.soundcloud.com/media/1/stream/hls''"

definition encrypted_url :: pyval where
  "encrypted_url = PyStr ''https://api-v2.soundcloud.com/media/1/stream/ctr-encrypted-hls''"

definition mp3_progressive :: transcoding where
  "mp3_progressive = \<lparr>tr_url = progressive_url, tr_protocol = ''progressive'', tr_preset = ''mp3_0_0''\<rparr>"





definition mp3_encrypted :: transcoding where
  "mp3_encrypted = \<lparr>tr_url = encrypted_url, tr_protocol = ''hls'', tr_preset = ''mp3_1_0''\<rparr>"

definition aac_encrypted :: transcoding where
  "aac_encrypted = \<lparr>tr_url = encrypted_url, tr_protocol = ''hls'', tr_preset = ''aac_256k''\<rparr>"

definition abr_unknown :: transcoding where
  "abr_unknown = \<lparr>tr_url = hls_url, tr_protocol = ''hls'', tr_preset = ''abr_sq''\<rparr>"

definition streamable_track :: "transcoding list \<Rightarrow> track_data" where
  "streamable_track ts =
     \<lparr>downloadable = False, has_downloads_left = False, streamable = True, media_transcodings = ts\<rparr>"

definition no_stream :: "string \<Rightarrow> TrackInfo" where
  \<comment> \<open>the result that carries only a diagnostic\<close>
  "no_stream msg =
     \<lparr>ti_track_url = PyNone, ti_download_url = PyNone, ti_codec = AAC, ti_is_hls = False,
      ti_error = Some msg\<rparr>"

definition empty_world :: world where
  "empty_world = \<lparr>files = {}, printed = [], ffmpeg_log = []\<rparr>"

section \<open>Properties of the string functions\<close>

lemma not_digit_underscore: "\<not> re_digit CHR ''_''" and not_digit_k: "\<not> re_digit CHR ''k''"
  by (simp_all add: re_digit_def)

lemma match_digits_k_digits:
  assumes "ds \<noteq> []" "list_all re_digit ds"
  shows "match_digits_k (ds @ CHR ''k'' # b) = Some ds"
proof -
  from assms(2) have all: "\<forall>x \<in> set ds. re_digit x" by (simp add: list_all_iff)
  then have "takeWhile re_digit (ds @ CHR ''k'' # b) = ds"
    by (simp add: takeWhile_append2 not_digit_k)
  moreover from all have "dropWhile re_digit (ds @ CHR ''k'' # b) = CHR ''k'' # b"
    by (simp add: dropWhile_append2 not_digit_k)
  ultimately show ?thesis using assms(1) by (simp add: match_digits_k_def)
qed

lemma match_digits_k_before_underscore:
  "match_digits_k (q @ CHR ''_'' # r) = match_digits_k q"
proof (cases "\<forall>x \<in> set q. re_digit x")
  case True
  then have 1: "takeWhile re_digit (q @ CHR ''_'' # r) = q"
    by (simp add: takeWhile_append2 not_digit_underscore)
  from True have 2: "takeWhile re_digit q = q" by simp
  from True have 3: "dropWhile re_digit (q @ CHR ''_'' # r) = CHR ''_'' # r"
    by (simp add: dropWhile_append2 not_digit_underscore)
  from True have 4: "dropWhile re_digit q = []" by simp
  have "match_digits_k (q @ CHR ''_'' # r) = None"
    unfolding match_digits_k_def Let_def 1 3 by simp
  moreover have "match_digits_k q = None"
    unfolding match_digits_k_def Let_def 2 4 by simp
  ultimately show ?thesis by simp
next
  case False
  then obtain x where x: "x \<in> set q" "\<not> re_digit x" by blast
  then have t: "takeWhile re_digit (q @ CHR ''_'' # r) = takeWhile re_digit q"
    and d: "dropWhile re_digit (q @ CHR ''_'' # r) = dropWhile re_digit q @ CHR ''_'' # r"
    by (simp_all add: takeWhile_append1 dropWhile_append1)
  from x have "dropWhile re_digit q \<noteq> []" by (auto simp: dropWhile_eq_Nil_conv)
  then obtain y ys where "dropWhile re_digit q = y # ys" by (cases "dropWhile re_digit q") auto
  with t d show ?thesis by (simp add: match_digits_k_def)
qed

lemma re_search_append_underscore:
  "re_search match_digits_k (p @ CHR ''_'' # r)
   = (case re_search match_digits_k p of Some g \<Rightarrow> Some g | None \<Rightarrow> re_search match_digits_k r)"
proof (induction p)
  case Nil
  have "match_digits_k (CHR ''_'' # r) = None" "match_digits_k [] = None"
    by (simp_all add: match_digits_k_def not_digit_underscore)
  then show ?case by simp
next
  case (Cons c p)
  have "match_digits_k ((c # p) @ CHR ''_'' # r) = match_digits_k (c # p)"
    by (rule match_digits_k_before_underscore)
  with Cons show ?case by (simp split: option.splits)
qed

lemma re_search_digits_k:
  assumes "ds \<noteq> []" "list_all re_digit ds"
  shows "re_search match_digits_k (ds @ CHR ''k'' # b) = Some ds"
proof -
  from assms(1) obtain d ds' where "ds = d # ds'" by (cases ds) auto
  then have "re_search match_digits_k (ds @ CHR ''k'' # b)
      = (case match_digits_k (ds @ CHR ''k'' # b) of Some g \<Rightarrow> Some g
         | None \<Rightarrow> re_search match_digits_k (ds' @ CHR ''k'' # b))"
    by simp
  with match_digits_k_digits [OF assms] show ?thesis by simp
qed

lemma re_search_prefix_digits_k:
  assumes "ds \<noteq> []" "list_all re_digit ds" "re_search match_digits_k p = None"
  shows "re_search match_digits_k (p @ ''_'' @ ds @ ''k'') = Some ds"
  using re_search_append_underscore [of p "ds @ ''k''"] assms(3) re_search_digits_k [OF assms(1,2), of "[]"]
  by simp

lemma re_search_aac_digits_k:
  assumes "ds \<noteq> []" "list_all re_digit ds"
  shows "re_search match_aac_digits_k (''aac_'' @ ds @ ''k'') = Some ds"
  using match_digits_k_digits [OF assms, of "[]"] by (simp add: match_aac_digits_k_def)

lemma py_int_digits:
  assumes "ds \<noteq> []" "list_all re_digit ds" "length ds \<le> max_str_digits"
  shows "py_int ds = Some (foldl (\<lambda>a c. 10 * a + digit_val c) 0 ds)"
  using assms by (simp add: py_int_def)

lemma py_int_None_unless_isdigit: "\<not> isdigit s \<Longrightarrow> py_int s = None"
  by (auto simp: py_int_def isdigit_def isdigit_chr_def list_all_iff)

lemma second_segment_eq:
  "second_segment parts c = (if length parts > 1 then (case py_int (parts ! 1) of Some n \<Rightarrow> n | None \<Rightarrow> 0) else 0)"
  by (auto simp: second_segment_def opus_fallback_def py_int_None_unless_isdigit split: option.splits)

text \<open>
  The search functions agree with the reading of the two patterns as "the string has an
  occurrence of the pattern": \<open>re_search\<close> finds nothing exactly when no decomposition of
  the string has a non-empty run of digits followed by \<open>k\<close> (after \<open>aac_\<close>).
\<close>

lemma re_search_None_iff:
  "re_search m s = None \<longleftrightarrow> (\<forall>i \<le> length s. m (drop i s) = None)"
proof (induction s)
  case Nil
  then show ?case by simp
next
  case (Cons c cs)
  have "(\<forall>i \<le> length (c # cs). m (drop i (c # cs)) = None)
      \<longleftrightarrow> m (c # cs) = None \<and> (\<forall>i \<le> length cs. m (drop i cs) = None)"
  proof
    assume a: "\<forall>i \<le> length (c # cs). m (drop i (c # cs)) = None"
    then have "m (drop 0 (c # cs)) = None" by blast
    moreover have "m (drop i cs) = None" if "i \<le> length cs" for i
      using a [rule_format, of "Suc i"] that by simp
    ultimately show "m (c # cs) = None \<and> (\<forall>i \<le> length cs. m (drop i cs) = None)" by simp
  next
    assume a: "m (c # cs) = None \<and> (\<forall>i \<le> length cs. m (drop i cs) = None)"
    show "\<forall>i \<le> length (c # cs). m (drop i (c # cs)) = None"
    proof (intro allI impI)
      fix i assume "i \<le> length (c # cs)"
      then show "m (drop i (c # cs)) = None" using a by (cases i) simp_all
    qed
  qed
  with Cons show ?case by (simp split: option.splits)
qed

lemma match_digits_k_Some_iff:
  "match_digits_k s = Some ds \<longleftrightarrow> ds \<noteq> [] \<and> list_all re_digit ds \<and> (\<exists>b. s = ds @ CHR ''k'' # b)"
proof
  assume a: "match_digits_k s = Some ds"
  then have ds: "ds = takeWhile re_digit s" and ne: "ds \<noteq> []"
    and k: "prefix ''k'' (dropWhile re_digit s)"
    by (auto simp: match_digits_k_def Let_def split: if_splits)
  from k obtain b where "dropWhile re_digit s = CHR ''k'' # b" by (auto simp: prefix_def)
  with ds have "s = ds @ CHR ''k'' # b" using takeWhile_dropWhile_id [of re_digit s] by simp
  moreover from ds have "list_all re_digit ds" by (auto simp: list_all_iff dest: set_takeWhileD)
  ultimately show "ds \<noteq> [] \<and> list_all re_digit ds \<and> (\<exists>b. s = ds @ CHR ''k'' # b)"
    using ne by blast
next
  assume "ds \<noteq> [] \<and> list_all re_digit ds \<and> (\<exists>b. s = ds @ CHR ''k'' # b)"
  then show "match_digits_k s = Some ds" using match_digits_k_digits by blast
qed

lemma no_digits_k_iff:
  "re_search match_digits_k s = None
   \<longleftrightarrow> \<not> (\<exists>a ds b. ds \<noteq> [] \<and> list_all re_digit ds \<and> s = a @ ds @ CHR ''k'' # b)"
proof
  assume n: "re_search match_digits_k s = None"
  show "\<not> (\<exists>a ds b. ds \<noteq> [] \<and> list_all re_digit ds \<and> s = a @ ds @ CHR ''k'' # b)"
  proof
    assume "\<exists>a ds b. ds \<noteq> [] \<and> list_all re_digit ds \<and> s = a @ ds @ CHR ''k'' # b"
    then obtain a ds b where d: "ds \<noteq> []" "list_all re_digit ds" and s: "s = a @ ds @ CHR ''k'' # b"
      by blast
    from s have "drop (length a) s = ds @ CHR ''k'' # b" "length a \<le> length s" by simp_all
    with n have "match_digits_k (ds @ CHR ''k'' # b) = None"
      unfolding re_search_None_iff by metis
    with match_digits_k_digits [OF d] show False by simp
  qed
next
  assume n: "\<not> (\<exists>a ds b. ds \<noteq> [] \<and> list_all re_digit ds \<and> s = a @ ds @ CHR ''k'' # b)"
  have "match_digits_k (drop i s) = None" if "i \<le> length s" for i
  proof (rule ccontr)
    assume "match_digits_k (drop i s) \<noteq> None"
    then obtain ds where "match_digits_k (drop i s) = Some ds" by auto
    then obtain b where "ds \<noteq> []" "list_all re_digit ds" "drop i s = ds @ CHR ''k'' # b"
      unfolding match_digits_k_Some_iff by blast
    moreover then have "s = take i s @ ds @ CHR ''k'' # b"
      using append_take_drop_id [of i s] by simp
    ultimately show False using n by blast
  qed
  then show "re_search match_digits_k s = None" unfolding re_search_None_iff by blast
qed

lemma no_aac_digits_k_iff:
  "re_search match_aac_digits_k s = None
   \<longleftrightarrow> \<not> (\<exists>a ds b. ds \<noteq> [] \<and> list_all re_digit ds \<and> s = a @ ''aac_'' @ ds @ CHR ''k'' # b)"
proof
  assume n: "re_search match_aac_digits_k s = None"
  show "\<not> (\<exists>a ds b. ds \<noteq> [] \<and> list_all re_digit ds \<and> s = a @ ''aac_'' @ ds @ CHR ''k'' # b)"
  proof
    assume "\<exists>a ds b. ds \<noteq> [] \<and> list_all re_digit ds \<and> s = a @ ''aac_'' @ ds @ CHR ''k'' # b"
    then obtain a ds b where d: "ds \<noteq> []" "list_all re_digit ds"
      and s: "s = a @ ''aac_'' @ ds @ CHR ''k'' # b"
      by blast
    from s have "drop (length a) s = ''aac_'' @ ds @ CHR ''k'' # b" "length a \<le> length s" by simp_all
    with n have "match_aac_digits_k (''aac_'' @ ds @ CHR ''k'' # b) = None"
      unfolding re_search_None_iff by metis
    with match_digits_k_digits [OF d, of b] show False by (simp add: match_aac_digits_k_def)
  qed
next
  assume n: "\<not> (\<exists>a ds b. ds \<noteq> [] \<and> list_all re_digit ds \<and> s = a @ ''aac_'' @ ds @ CHR ''k'' # b)"
  have "match_aac_digits_k (drop i s) = None" if "i \<le> length s" for i
  proof (rule ccontr)
    assume "match_aac_digits_k (drop i s) \<noteq> None"
    then obtain ds where p: "prefix ''aac_'' (drop i s)" and m: "match_digits_k (drop 4 (drop i s)) = Some ds"
      by (auto simp: match_aac_digits_k_def split: if_splits)
    from p obtain r where r: "drop i s = ''aac_'' @ r" by (auto simp: prefix_def)
    with m have "match_digits_k r = Some ds" by simp
    then obtain b where "ds \<noteq> []" "list_all re_digit ds" "r = ds @ CHR ''k'' # b"
      unfolding match_digits_k_Some_iff by blast
    moreover with r have "s = take i s @ ''aac_'' @ ds @ CHR ''k'' # b"
      using append_take_drop_id [of i s] by simp
    ultimately show False using n by blast
  qed
  then show "re_search match_aac_digits_k s = None" unfolding re_search_None_iff by blast
qed





section \<open>Properties of the stream selection\<close>

lemma candidate_SomeD:
  assumes "candidate members i = Some s"
  shows "stream_codec_name i \<in> set members" "truthy (tr_url i)" "0 \<le> quality_score i"
    "\<not> stream_is_encrypted_hls i"
    "s = \<lparr>url = tr_url i, codec = CodecEnum (stream_codec_name i), is_hls = stream_is_hls i,
          is_encrypted = False, quality = quality_score i,
          preference = pref_score (CodecEnum (stream_codec_name i)) (stream_is_hls i),
          preset = tr_preset i\<rparr>"
proof -
  from assms show c: "stream_codec_name i \<in> set members" and u: "truthy (tr_url i)"
    and q: "0 \<le> quality_score i"
    by (auto simp: candidate_def split: if_splits)
  show e: "\<not> stream_is_encrypted_hls i"
  proof
    assume "stream_is_encrypted_hls i"
    then have "quality_score i = - 100" by (simp add: quality_score_def)
    with q show False by simp
  qed
  from assms c u q e show "s = \<lparr>url = tr_url i, codec = CodecEnum (stream_codec_name i), is_hls = stream_is_hls i,
          is_encrypted = False, quality = quality_score i,
          preference = pref_score (CodecEnum (stream_codec_name i)) (stream_is_hls i),
          preset = tr_preset i\<rparr>"
    by (simp add: candidate_def)
qed

lemma set_available_streams:
  "set (available_streams members ts) = {s. \<exists>i \<in> set ts. candidate members i = Some s}"
  by (induction ts) (auto split: option.splits)

lemma available_streams_append:
  "available_streams members (xs @ ys) = available_streams members xs @ available_streams members ys"
  by (induction xs) (auto split: option.splits)

lemma set_sort_reverse: "set (sort_reverse k xs) = set xs"
  by (simp add: sort_reverse_def)

lemma length_sort_reverse: "length (sort_reverse k xs) = length xs"
  by (simp add: sort_reverse_def)

lemma sort_reverse_descending:
  assumes "i \<le> j" "j < length xs"
  shows "k (sort_reverse k xs ! j) \<le> k (sort_reverse k xs ! i)"
proof -
  let ?s = "sort_key k (rev xs)"
  have len: "length ?s = length xs" by simp
  have srt: "sorted (map k ?s)" by simp
  from assms len have ij: "length ?s - Suc j \<le> length ?s - Suc i" "length ?s - Suc i < length ?s"
    by auto
  have "map k ?s ! (length ?s - Suc j) \<le> map k ?s ! (length ?s - Suc i)"
    using sorted_nth_mono [OF srt, of "length ?s - Suc j" "length ?s - Suc i"] ij by simp
  with assms len ij show ?thesis
    by (simp add: sort_reverse_def rev_nth)
qed

lemma sort_reverse_hd_max:
  assumes "sort_reverse k xs = b # rest" "a \<in> set xs"
  shows "k a \<le> k b"
proof -
  from assms(2) have "a \<in> set (sort_reverse k xs)" by (simp add: set_sort_reverse)
  then obtain j where j: "j < length (sort_reverse k xs)" "sort_reverse k xs ! j = a"
    by (auto simp: in_set_conv_nth)
  from j(1) have "j < length xs" by (simp only: length_sort_reverse)
  then have "k (sort_reverse k xs ! j) \<le> k (sort_reverse k xs ! 0)"
    by (intro sort_reverse_descending) simp_all
  with j(2) assms(1) show ?thesis by simp
qed





lemma best_stream_Some:
  assumes "best_stream members ts = Some b"
  shows "b \<in> set (available_streams members ts)"
    and "\<And>a. a \<in> set (available_streams members ts) \<Longrightarrow> sort_key_of a \<le> sort_key_of b"
proof -
  from assms obtain rest where s: "sort_reverse sort_key_of (available_streams members ts) = b # rest"
    by (auto simp: best_stream_def ranked_streams_def split: list.splits)
  then have "b \<in> set (sort_reverse sort_key_of (available_streams members ts))" by simp
  then show "b \<in> set (available_streams members ts)" by (simp add: set_sort_reverse)
  show "sort_key_of a \<le> sort_key_of b" if "a \<in> set (available_streams members ts)" for a
    using sort_reverse_hd_max [OF s that] .
qed

lemma sort_reverse_Nil: "sort_reverse k xs = [] \<longleftrightarrow> xs = []"
proof -
  have "length (sort_reverse k xs) = length xs" by (rule length_sort_reverse)
  then show ?thesis by (metis length_0_conv)
qed

lemma best_stream_None: "best_stream members ts = None \<longleftrightarrow> available_streams members ts = []"
proof (cases "ranked_streams members ts")
  case Nil
  then have e: "available_streams members ts = []" by (simp only: ranked_streams_def sort_reverse_Nil)
  from Nil have "best_stream members ts = None" by (simp only: best_stream_def list.case)
  with e show ?thesis by simp
next
  case (Cons b rest)
  then have "available_streams members ts \<noteq> []"
    using sort_reverse_Nil [of sort_key_of "available_streams members ts"] by (simp add: ranked_streams_def)
  moreover from Cons have "best_stream members ts = Some b" by (simp only: best_stream_def list.case)
  ultimately show ?thesis by simp
qed


lemma best_stream_not_encrypted:
  assumes "best_stream members ts = Some b"
  shows "\<not> is_encrypted b"
proof -
  from best_stream_Some(1) [OF assms] obtain j where "candidate members j = Some b"
    by (auto simp: set_available_streams)
  from candidate_SomeD(5) [OF this] show ?thesis by simp
qed

lemma select_stream_never_drm: "ti_error (select_stream members ts) \<noteq> Some drm_error"
proof (cases "best_stream members ts")
  case None
  have "hd drm_error = CHR ''T''" by (simp add: drm_error_def)
  moreover from None have "\<exists>m. ti_error (select_stream members ts) = Some m \<and> hd m = CHR ''N''"
    by (simp add: select_stream_def)
  ultimately show ?thesis by auto
next
  case (Some b)
  then have n: "\<not> is_encrypted b" by (rule best_stream_not_encrypted)
  have "hd drm_error = CHR ''T''" by (simp add: drm_error_def)
  moreover have "ti_error (select_stream members ts) = None
      \<or> (\<exists>m. ti_error (select_stream members ts) = Some m \<and> hd m = CHR ''B'')"
    using Some n by (simp add: select_stream_def)
  ultimately show ?thesis by auto
qed

section \<open>Properties of the download\<close>

lemma files_silentremove: "files (silentremove f w) = files w - {f}"
  by (simp add: silentremove_def)

lemma run_ffmpeg_fst: "fst (run_ffmpeg h i out w) = result (ffmpeg_run h i out)"
  by (simp add: run_ffmpeg_def Let_def)

lemma run_ffmpeg_snd:
  "printed (snd (run_ffmpeg h i out w)) = printed w"
  "ffmpeg_log (snd (run_ffmpeg h i out w)) = ffmpeg_log w @ [(i, out)]"
  "files (snd (run_ffmpeg h i out w)) - {out} = files w - {out}"
  by (auto simp: run_ffmpeg_def Let_def)



lemma get_track_stream_link_cong:
  "api_get_url h' = api_get_url h \<Longrightarrow> get_track_stream_link h' u a = get_track_stream_link h u a"
  by (cases u) (simp_all add: get_track_stream_link_def)

section \<open>The example inputs evaluated\<close>

lemma progressive_url_class:
  "is_hls_by_url progressive_url = False" "encrypted_marker progressive_url = False"
  by code_simp+



lemma encrypted_url_class: "encrypted_marker encrypted_url = True"
  by code_simp

lemma example_urls_truthy:
  "truthy progressive_url" "truthy progressive_url_2" "truthy hls_url" "truthy encrypted_url"
  by (simp_all add: progressive_url_def progressive_url_2_def hls_url_def encrypted_url_def)


lemma candidate_mp3_progressive:
  "candidate named_members mp3_progressive
   = Some \<lparr>url = progressive_url, codec = MP3, is_hls = False, is_encrypted = False,
            quality = 0, preference = 1, preset = ''mp3_0_0''\<rparr>"
proof -
  have n: "stream_codec_name mp3_progressive = ''MP3''" by code_simp
  have q: "parse_progressive_bitrate_from_preset (PyStr ''mp3_0_0'') ''MP3'' = 0" by code_simp
  have p: "tr_url mp3_progressive = progressive_url" "tr_protocol mp3_progressive = ''progressive''"
    "tr_preset mp3_progressive = ''mp3_0_0''"
    by (simp_all add: mp3_progressive_def)
  show ?thesis
    by (simp add: candidate_def quality_score_def stream_is_hls_def stream_is_encrypted_hls_def
        n q p progressive_url_class example_urls_truthy named_members_def pref_score_def
        codec_preference_def
        del: parse_progressive_bitrate_from_preset.simps parse_aac_bitrate_from_preset.simps)
qed






lemma encrypted_examples:
  "stream_is_encrypted_hls mp3_encrypted" "stream_is_encrypted_hls aac_encrypted"
  "candidate named_members mp3_encrypted = None" "candidate named_members aac_encrypted = None"
proof -
  show e1: "stream_is_encrypted_hls mp3_encrypted"
    by (simp add: stream_is_encrypted_hls_def stream_is_hls_def mp3_encrypted_def encrypted_url_class)
  show e2: "stream_is_encrypted_hls aac_encrypted"
    by (simp add: stream_is_encrypted_hls_def stream_is_hls_def aac_encrypted_def encrypted_url_class)
  from e1 show "candidate named_members mp3_encrypted = None"
    by (simp add: candidate_def quality_score_def)
  from e2 show "candidate named_members aac_encrypted = None"
    by (simp add: candidate_def quality_score_def)
qed

lemma encrypted_examples_recognized:
  "stream_codec_name mp3_encrypted \<in> set named_members"
  "stream_codec_name aac_encrypted \<in> set named_members"
  by code_simp+

lemma abr_unknown_codec: "stream_codec_name abr_unknown \<notin> set named_members"
  by code_simp


lemma hls_url_is_hls: "determined_is_hls (PyBool True) hls_url"
  by (simp add: determined_is_hls_def)


lemma stream_link_hls:
  "get_track_stream_link demo_host hls_url ''auth'' = Inr (PyStr ''https://cf-media.sndcdn.com/resolved'')"
proof -
  have "in_str api_base ''https://api-v2.soundcloud.com/media/1/stream/hls''" by code_simp
  then show ?thesis
    by (simp add: get_track_stream_link_def hls_url_def demo_host_def)
qed

section \<open>The claims\<close>

text \<open>
  C1. The claim: a transcoding is retained for ranking if and only if its url is present
  and its quality score is at least 0 or it is encrypted, and a track whose only
  transcoding is an encrypted HLS stream with a url has that stream selected, with the
  DRM diagnostic. The code gives an encrypted stream the score -100 and then keeps only
  the streams with a url and a score of at least 0, so the encrypted stream is dropped:
  for the track of the claim nothing is selected and the diagnostic is the one of a
  track without usable transcodings. The branch of \<open>select_stream\<close> that produces the
  DRM diagnostic is never taken, for any list (\<open>select_stream_never_drm\<close>).
\<close>

theorem C1_encrypted_only_dropped:
  "stream_is_encrypted_hls mp3_encrypted \<and> truthy (tr_url mp3_encrypted)
   \<and> stream_codec_name mp3_encrypted \<in> set named_members
   \<and> candidate named_members mp3_encrypted = None
   \<and> get_track_info demo_host named_members ''1'' (streamable_track [mp3_encrypted])
       = Inr (no_stream ''No stream transcodings found or none were usable.'')"
proof -
  have 1: "stream_is_encrypted_hls mp3_encrypted" by (rule encrypted_examples(1))
  have 2: "truthy (tr_url mp3_encrypted)" by (simp add: mp3_encrypted_def example_urls_truthy)
  have 3: "stream_codec_name mp3_encrypted \<in> set named_members" by (rule encrypted_examples_recognized(1))
  have 4: "candidate named_members mp3_encrypted = None" by (rule encrypted_examples(3))
  then have "available_streams named_members [mp3_encrypted] = []" by simp
  then have "best_stream named_members [mp3_encrypted] = None" by (simp only: best_stream_None)
  then have "select_stream named_members [mp3_encrypted]
      = no_stream ''No stream transcodings found or none were usable.''"
    by (simp add: select_stream_def no_stream_def)
  then have 5: "get_track_info demo_host named_members ''1'' (streamable_track [mp3_encrypted])
       = Inr (no_stream ''No stream transcodings found or none were usable.'')"
    by (simp add: get_track_info_def streamable_track_def)
  from 1 2 3 4 5 show ?thesis by (intro conjI)
qed




text \<open>
  C3. The claim: for an Opus preset \<open>opus_<level>_...\<close> without a \<open><digits>k\<close> pattern the
  generic extractor returns \<open>level * 12 + 32\<close>. In the code the step before, which
  returns the second segment of the preset when it is a number, already returns the
  level itself, and the Opus step (\<open>opus_fallback\<close>) is only reached when that number
  cannot be converted, where it fails as well (\<open>second_segment_eq\<close>). At the preset
  \<open>opus_5_0\<close> the extractor returns 5, and the Opus step alone would give 92.
\<close>

theorem C3_opus_level_not_scaled:
  "parse_progressive_bitrate_from_preset (PyStr ''opus_5_0'') ''OPUS'' = 5
   \<and> parse_progressive_bitrate_from_preset (PyStr ''opus_5_0'') ''OPUS'' \<noteq> 5 * 12 + 32
   \<and> re_search match_digits_k ''opus_5_0'' = None
   \<and> opus_fallback (split_str ''_'' ''opus_5_0'') ''OPUS'' = 5 * 12 + 32"
proof -
  have 1: "parse_progressive_bitrate_from_preset (PyStr ''opus_5_0'') ''OPUS'' = 5" by code_simp
  have 2: "re_search match_digits_k ''opus_5_0'' = None" by code_simp
  have 3: "opus_fallback (split_str ''_'' ''opus_5_0'') ''OPUS'' = 5 * 12 + 32" by code_simp
  from 1 have 4: "parse_progressive_bitrate_from_preset (PyStr ''opus_5_0'') ''OPUS'' \<noteq> 5 * 12 + 32"
    by simp
  from 1 4 2 3 show ?thesis by (intro conjI)
qed

text \<open>
  C4. The claim: an extractor returns the integer of every preset \<open><prefix>_<digits>k\<close>,
  the AAC extractor returns 64 for every \<open>aac_<other>\<close> without a digit-k suffix, an
  unparseable string that is not an AAC preset gives 0, and the extractors return 0
  instead of raising. The extractors search the pattern anywhere in the string and take
  its first occurrence, and the generic one looks for the Opus markers first. What
  holds, with \<open>int\<close> converting at most 4300 digits:
  \<^item> for a preset \<open>p_<digits>k\<close> whose prefix \<open>p\<close> has no occurrence of \<open><digits>k\<close>, the
    generic extractor returns the integer, unless the codec name is \<open>OPUS\<close> and the
    preset contains \<open>abr_hq\<close> or \<open>abr_sq\<close>; the AAC extractor returns the integer of
    \<open>aac_<digits>k\<close>;
  \<^item> for a string \<open>aac_<other>\<close> with no occurrence of \<open>aac_<digits>k\<close> the AAC extractor
    returns 64;
  \<^item> the generic extractor returns 0 for a string with no occurrence of \<open><digits>k\<close>
    whose second segment is missing or no decimal number (the Opus markers apart), and
    the AAC extractor returns 0 for a string with no occurrence of \<open>aac_<digits>k\<close> that
    does not start with \<open>aac_\<close>;
  \<^item> both extractors return a value on every argument, and 0 on one that is no string.
\<close>

theorem C4_bitrate_extractors:
  "(ds \<noteq> [] \<and> list_all re_digit ds \<and> length ds \<le> max_str_digits
      \<and> re_search match_digits_k p = None
      \<and> \<not> (c = ''OPUS'' \<and> (in_str ''abr_hq'' (p @ ''_'' @ ds @ ''k'') \<or> in_str ''abr_sq'' (p @ ''_'' @ ds @ ''k'')))
    \<longrightarrow> py_int ds = Some (parse_progressive_bitrate_from_preset (PyStr (p @ ''_'' @ ds @ ''k'')) c))
   \<and> (ds \<noteq> [] \<and> list_all re_digit ds \<and> length ds \<le> max_str_digits
    \<longrightarrow> py_int ds = Some (parse_aac_bitrate_from_preset (PyStr (''aac_'' @ ds @ ''k''))))
   \<and> (re_search match_aac_digits_k (''aac_'' @ other) = None
    \<longrightarrow> parse_aac_bitrate_from_preset (PyStr (''aac_'' @ other)) = 64)
   \<and> (re_search match_digits_k s = None
      \<and> (length (split_str ''_'' s) \<le> 1 \<or> py_int (split_str ''_'' s ! 1) = None)
      \<and> \<not> (c = ''OPUS'' \<and> (in_str ''abr_hq'' s \<or> in_str ''abr_sq'' s))
    \<longrightarrow> parse_progressive_bitrate_from_preset (PyStr s) c = 0)
   \<and> (re_search match_aac_digits_k s = None \<and> \<not> startswith s ''aac_''
    \<longrightarrow> parse_aac_bitrate_from_preset (PyStr s) = 0)
   \<and> ((\<forall>x. v \<noteq> PyStr x)
    \<longrightarrow> parse_aac_bitrate_from_preset v = 0 \<and> parse_progressive_bitrate_from_preset v c = 0)"
proof (intro conjI impI)
  assume a: "ds \<noteq> [] \<and> list_all re_digit ds \<and> length ds \<le> max_str_digits
      \<and> re_search match_digits_k p = None
      \<and> \<not> (c = ''OPUS'' \<and> (in_str ''abr_hq'' (p @ ''_'' @ ds @ ''k'') \<or> in_str ''abr_sq'' (p @ ''_'' @ ds @ ''k'')))"
  then have s: "re_search match_digits_k (p @ ''_'' @ ds @ ''k'') = Some ds"
    by (intro re_search_prefix_digits_k) simp_all
  from a obtain n where n: "py_int ds = Some n" by (auto simp: py_int_def)
  from a have "parse_progressive_bitrate_from_preset (PyStr (p @ ''_'' @ ds @ ''k'')) c
      = generic_pattern (p @ ''_'' @ ds @ ''k'') c"
    by auto
  also have "\<dots> = n" using s n by (simp add: generic_pattern_def)
  finally show "py_int ds = Some (parse_progressive_bitrate_from_preset (PyStr (p @ ''_'' @ ds @ ''k'')) c)"
    using n by simp
next
  assume a: "ds \<noteq> [] \<and> list_all re_digit ds \<and> length ds \<le> max_str_digits"
  then have s: "re_search match_aac_digits_k (''aac_'' @ ds @ ''k'') = Some ds"
    by (intro re_search_aac_digits_k) simp_all
  from a obtain n where n: "py_int ds = Some n" by (auto simp: py_int_def)
  have "parse_aac_bitrate_from_preset (PyStr (''aac_'' @ ds @ ''k'')) = n"
    using s n by (simp del: re_search.simps)
  with n show "py_int ds = Some (parse_aac_bitrate_from_preset (PyStr (''aac_'' @ ds @ ''k'')))"
    by simp
next
  assume "re_search match_aac_digits_k (''aac_'' @ other) = None"
  then show "parse_aac_bitrate_from_preset (PyStr (''aac_'' @ other)) = 64"
    by (simp add: startswith_def del: re_search.simps)
next
  assume "re_search match_digits_k s = None
      \<and> (length (split_str ''_'' s) \<le> 1 \<or> py_int (split_str ''_'' s ! 1) = None)
      \<and> \<not> (c = ''OPUS'' \<and> (in_str ''abr_hq'' s \<or> in_str ''abr_sq'' s))"
  then show "parse_progressive_bitrate_from_preset (PyStr s) c = 0"
    by (auto simp: generic_pattern_def second_segment_eq)
next
  assume "re_search match_aac_digits_k s = None \<and> \<not> startswith s ''aac_''"
  then show "parse_aac_bitrate_from_preset (PyStr s) = 0" by simp
next
  assume "\<forall>x. v \<noteq> PyStr x"
  then show "parse_aac_bitrate_from_preset v = 0" by (cases v) simp_all
next
  assume "\<forall>x. v \<noteq> PyStr x"
  then show "parse_progressive_bitrate_from_preset v c = 0" by (cases v) simp_all
qed

text \<open>
  The theorem at \<open>mp3_256k\<close>, \<open>aac_256k\<close>, \<open>aac_1_0\<close>, \<open>mp3_standard\<close> and \<open>None\<close>.
\<close>

theorem C4_bitrate_extractors_witness:
  "py_int ''256'' = Some 256 \<and> re_search match_digits_k ''mp3'' = None
   \<and> parse_progressive_bitrate_from_preset (PyStr ''mp3_256k'') ''MP3'' = 256
   \<and> parse_aac_bitrate_from_preset (PyStr ''aac_256k'') = 256
   \<and> re_search match_aac_digits_k ''aac_1_0'' = None
   \<and> parse_aac_bitrate_from_preset (PyStr ''aac_1_0'') = 64
   \<and> re_search match_digits_k ''mp3_standard'' = None
   \<and> py_int (split_str ''_'' ''mp3_standard'' ! 1) = None
   \<and> parse_progressive_bitrate_from_preset (PyStr ''mp3_standard'') ''MP3'' = 0
   \<and> parse_aac_bitrate_from_preset (PyStr ''mp3_standard'') = 0
   \<and> parse_aac_bitrate_from_preset PyNone = 0
   \<and> parse_progressive_bitrate_from_preset PyNone ''MP3'' = 0"
proof -
  have 1: "py_int ''256'' = Some 256" by code_simp
  have 2: "re_search match_digits_k ''mp3'' = None" by code_simp
  have 3: "''256'' \<noteq> [] \<and> list_all re_digit ''256'' \<and> length ''256'' \<le> max_str_digits"
    by (simp add: re_digit_def max_str_digits_def)
  have 4: "\<not> (''MP3'' = ''OPUS'' \<and> (in_str ''abr_hq'' (''mp3'' @ ''_'' @ ''256'' @ ''k'')
        \<or> in_str ''abr_sq'' (''mp3'' @ ''_'' @ ''256'' @ ''k'')))" by simp
  have 5: "re_search match_aac_digits_k (''aac_'' @ ''1_0'') = None" by code_simp
  have 6: "re_search match_digits_k ''mp3_standard'' = None" by code_simp
  have 7: "py_int (split_str ''_'' ''mp3_standard'' ! 1) = None" by code_simp
  have 8: "\<not> (''MP3'' = ''OPUS'' \<and> (in_str ''abr_hq'' ''mp3_standard'' \<or> in_str ''abr_sq'' ''mp3_standard''))"
    by simp
  have 9: "re_search match_aac_digits_k ''mp3_standard'' = None" by code_simp
  have 10: "\<not> startswith ''mp3_standard'' ''aac_''" by (simp add: startswith_def)
  have 11: "\<forall>x. PyNone \<noteq> PyStr x" by simp
  note t = C4_bitrate_extractors [where ds = "''256''" and p = "''mp3''" and c = "''MP3''"
      and other = "''1_0''" and s = "''mp3_standard''" and v = PyNone]
  from t 2 3 4 have "py_int ''256'' = Some (parse_progressive_bitrate_from_preset (PyStr (''mp3'' @ ''_'' @ ''256'' @ ''k'')) ''MP3'')"
    by blast
  with 1 have a: "parse_progressive_bitrate_from_preset (PyStr ''mp3_256k'') ''MP3'' = 256" by simp
  from t 3 have "py_int ''256'' = Some (parse_aac_bitrate_from_preset (PyStr (''aac_'' @ ''256'' @ ''k'')))"
    by blast
  with 1 have b: "parse_aac_bitrate_from_preset (PyStr ''aac_256k'') = 256" by simp
  from t 5 have "parse_aac_bitrate_from_preset (PyStr (''aac_'' @ ''1_0'')) = 64" by blast
  then have c: "parse_aac_bitrate_from_preset (PyStr ''aac_1_0'') = 64" by simp
  from t 6 7 8 have d: "parse_progressive_bitrate_from_preset (PyStr ''mp3_standard'') ''MP3'' = 0" by blast
  from t 9 10 have e: "parse_aac_bitrate_from_preset (PyStr ''mp3_standard'') = 0" by blast
  from t 11 have f: "parse_aac_bitrate_from_preset PyNone = 0"
    and g: "parse_progressive_bitrate_from_preset PyNone ''MP3'' = 0" by blast+
  from 5 have r5: "re_search match_aac_digits_k ''aac_1_0'' = None" by simp
  from 1 2 a b r5 c 6 7 d e f g show ?thesis by (intro conjI)
qed

text \<open>
  With the codec name \<open>OPUS\<close> the preset \<open>opus_abr_sq_128k\<close> has the form
  \<open><prefix>_<digits>k\<close> with the digits 128, and the generic extractor returns 96, the
  value of the marker \<open>abr_sq\<close>. The preset \<open>mp3_2k_128k\<close> ends in the digits 128 and \<open>k\<close>,
  and the generic extractor returns 2, the first occurrence of the pattern. The preset
  \<open>aac_128k_v2\<close> has the form \<open>aac_<other>\<close> and does not end in digits and \<open>k\<close>, and the
  AAC extractor returns 128.
\<close>

theorem C4_extractors_counterexample:
  "py_int ''128'' = Some 128
   \<and> parse_progressive_bitrate_from_preset (PyStr (''opus_abr_sq'' @ ''_'' @ ''128'' @ ''k'')) ''OPUS'' = 96
   \<and> parse_progressive_bitrate_from_preset (PyStr (''opus_abr_sq'' @ ''_'' @ ''128'' @ ''k'')) ''OPUS'' \<noteq> 128
   \<and> parse_progressive_bitrate_from_preset (PyStr (''mp3_2k'' @ ''_'' @ ''128'' @ ''k'')) ''MP3'' = 2
   \<and> parse_progressive_bitrate_from_preset (PyStr (''mp3_2k'' @ ''_'' @ ''128'' @ ''k'')) ''MP3'' \<noteq> 128
   \<and> parse_aac_bitrate_from_preset (PyStr (''aac_'' @ ''128k_v2'')) = 128
   \<and> parse_aac_bitrate_from_preset (PyStr (''aac_'' @ ''128k_v2'')) \<noteq> 64"
proof -
  have 1: "py_int ''128'' = Some 128" by code_simp
  have 2: "parse_progressive_bitrate_from_preset (PyStr (''opus_abr_sq'' @ ''_'' @ ''128'' @ ''k'')) ''OPUS'' = 96"
    by code_simp
  have 3: "parse_progressive_bitrate_from_preset (PyStr (''mp3_2k'' @ ''_'' @ ''128'' @ ''k'')) ''MP3'' = 2"
    by code_simp
  have 4: "parse_aac_bitrate_from_preset (PyStr (''aac_'' @ ''128k_v2'')) = 128" by code_simp
  from 2 have 5: "parse_progressive_bitrate_from_preset (PyStr (''opus_abr_sq'' @ ''_'' @ ''128'' @ ''k'')) ''OPUS'' \<noteq> 128"
    by simp
  from 3 have 6: "parse_progressive_bitrate_from_preset (PyStr (''mp3_2k'' @ ''_'' @ ''128'' @ ''k'')) ''MP3'' \<noteq> 128"
    by simp
  from 4 have 7: "parse_aac_bitrate_from_preset (PyStr (''aac_'' @ ''128k_v2'')) \<noteq> 64" by simp
  from 1 2 5 3 6 4 7 show ?thesis by (intro conjI)
qed



text \<open>
  C6. When the list has a transcoding of a known codec with a url and a quality of at
  least 0, a stream is selected, it comes from a transcoding that is not encrypted HLS,
  and the diagnostic is not the one of a DRM-protected stream. The preset of an
  encrypted transcoding plays no part: its quality is -100 whatever the preset says.
\<close>

theorem C6_encrypted_never_selected:
  assumes "i \<in> set ts" and "stream_codec_name i \<in> set members"
    and "truthy (tr_url i)" and "0 \<le> quality_score i"
  shows "\<exists>b j. best_stream members ts = Some b \<and> j \<in> set ts \<and> candidate members j = Some b
     \<and> \<not> stream_is_encrypted_hls j \<and> \<not> is_encrypted b
     \<and> ti_error (select_stream members ts) \<noteq> Some drm_error"
proof -
  from assms(2-4) have "candidate members i \<noteq> None" by (simp add: candidate_def)
  with assms(1) have "available_streams members ts \<noteq> []"
    using set_available_streams [of members ts] by force
  then have "best_stream members ts \<noteq> None" by (simp only: best_stream_None not_False_eq_True)
  then obtain b where b: "best_stream members ts = Some b" by auto
  from best_stream_Some(1) [OF b] obtain j where j: "j \<in> set ts" "candidate members j = Some b"
    by (auto simp: set_available_streams)
  have e: "\<not> stream_is_encrypted_hls j" using j(2) by (rule candidate_SomeD(4))
  have n: "\<not> is_encrypted b" using b by (rule best_stream_not_encrypted)
  have d: "ti_error (select_stream members ts) \<noteq> Some drm_error" by (rule select_stream_never_drm)
  from b j e n d show ?thesis by blast
qed

text \<open>
  The theorem at an encrypted AAC stream of 256 kbps together with an MP3 stream over
  progressive HTTP of quality 0.
\<close>

theorem C6_encrypted_never_selected_witness:
  "mp3_progressive \<in> set [aac_encrypted, mp3_progressive]
   \<and> stream_codec_name mp3_progressive \<in> set named_members
   \<and> truthy (tr_url mp3_progressive) \<and> 0 \<le> quality_score mp3_progressive
   \<and> stream_is_encrypted_hls aac_encrypted
   \<and> stream_codec_name aac_encrypted \<in> set named_members
   \<and> ti_error (select_stream named_members [aac_encrypted, mp3_progressive]) \<noteq> Some drm_error"
proof -
  have 1: "mp3_progressive \<in> set [aac_encrypted, mp3_progressive]" by simp
  have 2: "stream_codec_name mp3_progressive \<in> set named_members"
    using candidate_SomeD(1) [OF candidate_mp3_progressive] .
  have 3: "truthy (tr_url mp3_progressive)"
    using candidate_SomeD(2) [OF candidate_mp3_progressive] .
  have 4: "0 \<le> quality_score mp3_progressive"
    using candidate_SomeD(3) [OF candidate_mp3_progressive] .
  have 5: "stream_is_encrypted_hls aac_encrypted" by (rule encrypted_examples(2))
  have 6: "stream_codec_name aac_encrypted \<in> set named_members" by (rule encrypted_examples_recognized(2))
  from C6_encrypted_never_selected [OF 1 2 3 4]
  have 7: "ti_error (select_stream named_members [aac_encrypted, mp3_progressive]) \<noteq> Some drm_error"
    by (elim exE conjE)
  from 1 2 3 4 5 6 7 show ?thesis by (intro conjI)
qed





text \<open>
  C9. On the HLS path, after the playlist url is resolved: when ffmpeg exits with a code
  that is not 0 or raises, the call raises a module error, the output file does not
  exist afterwards (the other files are as before), and ffmpeg was invoked exactly
  once. When ffmpeg cannot be imported, the import error leaves the call, and nothing
  was invoked or written.
\<close>

theorem C9_hls_failure_is_terminal:
  assumes "determined_is_hls is_hls_kwarg track_url" and "truthy track_url"
    and "resolve_m3u8 h track_url track_authorization = Inr m3u8"
  shows "(ffmpeg_installed h \<and> ffmpeg_failed (result (ffmpeg_run h m3u8 (hls_output_location h codec')))
         \<longrightarrow> (\<exists>m. fst (get_track_download h track_url download_url codec' track_authorization is_hls_kwarg w)
                   = Inl (ModuleError m))
           \<and> hls_output_location h codec'
               \<notin> files (snd (get_track_download h track_url download_url codec' track_authorization is_hls_kwarg w))
           \<and> files (snd (get_track_download h track_url download_url codec' track_authorization is_hls_kwarg w))
               = files w - {hls_output_location h codec'}
           \<and> ffmpeg_log (snd (get_track_download h track_url download_url codec' track_authorization is_hls_kwarg w))
               = ffmpeg_log w @ [(m3u8, hls_output_location h codec')])
     \<and> (\<not> ffmpeg_installed h
         \<longrightarrow> get_track_download h track_url download_url codec' track_authorization is_hls_kwarg w
             = (Inl import_error, w))"
proof (intro conjI impI)
  let ?g = "get_track_download h track_url download_url codec' track_authorization is_hls_kwarg w"
  let ?out = "hls_output_location h codec'"
  assume a: "ffmpeg_installed h \<and> ffmpeg_failed (result (ffmpeg_run h m3u8 ?out))"
  from assms have g: "?g = hls_download h codec' m3u8 w" by (simp add: get_track_download_def)
  obtain rr w1 where rf: "run_ffmpeg h m3u8 ?out w = (rr, w1)"
    by (cases "run_ffmpeg h m3u8 ?out w")
  have rr: "result (ffmpeg_run h m3u8 ?out) = rr"
    using run_ffmpeg_fst [of h m3u8 ?out w] rf by simp
  have w1: "ffmpeg_log w1 = ffmpeg_log w @ [(m3u8, ?out)]" "files w1 - {?out} = files w - {?out}"
    using run_ffmpeg_snd(2,3) [of h m3u8 ?out w] rf by simp_all
  have "\<exists>m w2. ?g = (Inl (ModuleError m), w2) \<and> files w2 = files w1 - {?out} \<and> ffmpeg_log w2 = ffmpeg_log w1"
  proof (cases rr)
    case (Exited rc err)
    with a rr have "rc \<noteq> 0" by (simp add: ffmpeg_failed_def)
    with a Exited rf show ?thesis
      unfolding g by (simp add: hls_download_def Let_def silentremove_def)
  next
    case (Raised e)
    with a rf show ?thesis
      unfolding g by (cases e) (simp_all add: hls_download_def Let_def silentremove_def)
  qed
  then obtain m w2 where r: "?g = (Inl (ModuleError m), w2)" and f: "files w2 = files w1 - {?out}"
    and l: "ffmpeg_log w2 = ffmpeg_log w1" by blast
  from r show "\<exists>m. fst ?g = Inl (ModuleError m)" by simp
  from r f show "?out \<notin> files (snd ?g)" by simp
  from r f w1 show "files (snd ?g) = files w - {?out}" by simp
  from r l w1 show "ffmpeg_log (snd ?g) = ffmpeg_log w @ [(m3u8, ?out)]" by simp
next
  assume "\<not> ffmpeg_installed h"
  with assms show "get_track_download h track_url download_url codec' track_authorization is_hls_kwarg w
             = (Inl import_error, w)"
    by (simp add: get_track_download_def hls_download_def)
qed

text \<open>
  The theorem at an HLS url and an ffmpeg that writes part of the output and exits with
  code 1, and at a host without ffmpeg.
\<close>

theorem C9_hls_failure_is_terminal_witness:
  "determined_is_hls (PyBool True) hls_url \<and> truthy hls_url
   \<and> resolve_m3u8 demo_host hls_url ''auth'' = Inr (PyStr ''https://cf-media.sndcdn.com/resolved'')
   \<and> ffmpeg_installed demo_host
   \<and> ffmpeg_failed (result (ffmpeg_run demo_host (PyStr ''https://cf-media.sndcdn.com/resolved'')
        (hls_output_location demo_host MP3)))
   \<and> hls_output_location demo_host MP3 = ''temp/0001.mp3''
   \<and> (\<exists>m. fst (get_track_download demo_host hls_url PyNone MP3 ''auth'' (PyBool True) empty_world)
            = Inl (ModuleError m))
   \<and> files (snd (get_track_download demo_host hls_url PyNone MP3 ''auth'' (PyBool True) empty_world)) = {}
   \<and> ffmpeg_log (snd (get_track_download demo_host hls_url PyNone MP3 ''auth'' (PyBool True) empty_world))
       = [(PyStr ''https://cf-media.sndcdn.com/resolved'', ''temp/0001.mp3'')]
   \<and> \<not> ffmpeg_installed (demo_host\<lparr>ffmpeg_installed := False\<rparr>)
   \<and> get_track_download (demo_host\<lparr>ffmpeg_installed := False\<rparr>) hls_url PyNone MP3 ''auth'' (PyBool True) empty_world
       = (Inl import_error, empty_world)"
proof -
  have 1: "determined_is_hls (PyBool True) hls_url" by (rule hls_url_is_hls)
  have 2: "truthy hls_url" by (simp add: hls_url_def)
  have 3: "resolve_m3u8 demo_host hls_url ''auth'' = Inr (PyStr ''https://cf-media.sndcdn.com/resolved'')"
    by (simp add: resolve_m3u8_def stream_link_hls startswith_def)
  have 4: "ffmpeg_installed demo_host" by (simp add: demo_host_def)
  have 5: "ffmpeg_failed (result (ffmpeg_run demo_host (PyStr ''https://cf-media.sndcdn.com/resolved'')
        (hls_output_location demo_host MP3)))"
    by (simp add: demo_host_def ffmpeg_failed_def)
  have 6: "hls_output_location demo_host MP3 = ''temp/0001.mp3''"
    by (simp add: hls_output_location_def demo_host_def)
  note t = C9_hls_failure_is_terminal [OF 1 2 3, where codec' = MP3 and download_url = PyNone and w = empty_world]
  from t 4 5 have 7: "\<exists>m. fst (get_track_download demo_host hls_url PyNone MP3 ''auth'' (PyBool True) empty_world)
            = Inl (ModuleError m)"
    and 8: "files (snd (get_track_download demo_host hls_url PyNone MP3 ''auth'' (PyBool True) empty_world))
            = files empty_world - {hls_output_location demo_host MP3}"
    and 9: "ffmpeg_log (snd (get_track_download demo_host hls_url PyNone MP3 ''auth'' (PyBool True) empty_world))
       = ffmpeg_log empty_world @ [(PyStr ''https://cf-media.sndcdn.com/resolved'', hls_output_location demo_host MP3)]"
    by simp_all
  from 8 have f8: "files (snd (get_track_download demo_host hls_url PyNone MP3 ''auth'' (PyBool True) empty_world)) = {}"
    by (simp add: empty_world_def)
  from 9 6 have l9: "ffmpeg_log (snd (get_track_download demo_host hls_url PyNone MP3 ''auth'' (PyBool True) empty_world))
       = [(PyStr ''https://cf-media.sndcdn.com/resolved'', ''temp/0001.mp3'')]"
    by (simp add: empty_world_def)
  have 10: "\<not> ffmpeg_installed (demo_host\<lparr>ffmpeg_installed := False\<rparr>)" by simp
  have 11: "resolve_m3u8 (demo_host\<lparr>ffmpeg_installed := False\<rparr>) hls_url ''auth''
      = Inr (PyStr ''https://cf-media.sndcdn.com/resolved'')"
  proof -
    have "get_track_stream_link (demo_host\<lparr>ffmpeg_installed := False\<rparr>) hls_url ''auth''
        = get_track_stream_link demo_host hls_url ''auth''"
      by (rule get_track_stream_link_cong) simp
    then have "resolve_m3u8 (demo_host\<lparr>ffmpeg_installed := False\<rparr>) hls_url ''auth''
        = resolve_m3u8 demo_host hls_url ''auth''"
      by (simp only: resolve_m3u8_def)
    with 3 show ?thesis by simp
  qed
  note u = C9_hls_failure_is_terminal [OF 1 2 11, where codec' = MP3 and download_url = PyNone and w = empty_world]
  from u 10 have 12: "get_track_download (demo_host\<lparr>ffmpeg_installed := False\<rparr>) hls_url PyNone MP3 ''auth'' (PyBool True) empty_world
       = (Inl import_error, empty_world)"
    by simp
  from 1 2 3 4 5 6 7 f8 l9 10 12 show ?thesis by (intro conjI)
qed

text \<open>
  C10. A transcoding whose codec name (the first segment of the preset, in upper case)
  is no member of the enumeration gives no stream, whatever its url and protocol: the
  retained and the ranked streams are those of the list without it. When the rest of
  the list gives no stream either, the diagnostic of a streamable track is
  \<open>No stream transcodings found or none were usable.\<close>
\<close>

theorem C10_unrecognized_codec_excluded:
  assumes "stream_codec_name i \<notin> set members"
  shows "candidate members i = None
     \<and> available_streams members (xs @ i # ys) = available_streams members (xs @ ys)
     \<and> ranked_streams members (xs @ i # ys) = ranked_streams members (xs @ ys)
     \<and> (available_streams members (xs @ ys) = [] \<and> \<not> (downloadable td \<and> has_downloads_left td)
          \<and> streamable td \<and> media_transcodings td = xs @ i # ys
        \<longrightarrow> get_track_info h members track_id td
            = Inr (no_stream ''No stream transcodings found or none were usable.''))"
proof -
  from assms have c: "candidate members i = None" by (simp add: candidate_def)
  then have a: "available_streams members (xs @ i # ys) = available_streams members (xs @ ys)"
    by (simp add: available_streams_append)
  then have r: "ranked_streams members (xs @ i # ys) = ranked_streams members (xs @ ys)"
    by (simp add: ranked_streams_def)
  have g: "get_track_info h members track_id td
            = Inr (no_stream ''No stream transcodings found or none were usable.'')"
    if "available_streams members (xs @ ys) = []" "\<not> (downloadable td \<and> has_downloads_left td)"
      "streamable td" "media_transcodings td = xs @ i # ys"
  proof -
    from that(1) a have "available_streams members (xs @ i # ys) = []" by simp
    then have "best_stream members (xs @ i # ys) = None" by (simp only: best_stream_None)
    then have "select_stream members (xs @ i # ys)
       = no_stream ''No stream transcodings found or none were usable.''"
      by (simp add: select_stream_def no_stream_def)
    moreover from that(2) have "(downloadable td \<and> has_downloads_left td) = False" by simp
    ultimately show ?thesis using that(3,4) by (auto simp: get_track_info_def)
  qed
  from c a r g show ?thesis by blast
qed

text \<open>
  The theorem at a track whose only transcoding has the preset \<open>abr_sq\<close>.
\<close>

theorem C10_unrecognized_codec_excluded_witness:
  "stream_codec_name abr_unknown \<notin> set named_members
   \<and> candidate named_members abr_unknown = None
   \<and> get_track_info demo_host named_members ''1'' (streamable_track [abr_unknown])
       = Inr (no_stream ''No stream transcodings found or none were usable.'')"
proof -
  have 1: "stream_codec_name abr_unknown \<notin> set named_members" by (rule abr_unknown_codec)
  have 2: "available_streams named_members ([] @ []) = []" by simp
  let ?td = "streamable_track [abr_unknown]"
  have 3: "\<not> (downloadable ?td \<and> has_downloads_left ?td)" by (simp add: streamable_track_def)
  have 4: "streamable ?td" by (simp add: streamable_track_def)
  have 5: "media_transcodings ?td = [] @ abr_unknown # []" by (simp add: streamable_track_def)
  note t = C10_unrecognized_codec_excluded [OF 1, of "[]" "[]" ?td demo_host "''1''"]
  from t have 6: "candidate named_members abr_unknown = None" by (rule conjunct1)
  from t have "available_streams named_members ([] @ []) = [] \<and> \<not> (downloadable ?td \<and> has_downloads_left ?td)
          \<and> streamable ?td \<and> media_transcodings ?td = [] @ abr_unknown # []
        \<longrightarrow> get_track_info demo_host named_members ''1'' ?td
            = Inr (no_stream ''No stream transcodings found or none were usable.'')"
    by (elim conjE)
  with 2 3 4 5 have 7: "get_track_info demo_host named_members ''1'' ?td
            = Inr (no_stream ''No stream transcodings found or none were usable.'')"
    by (elim impE) (intro conjI)
  from 1 6 7 show ?thesis by (intro conjI)
qed

end
